theory Spec2Isabelle
  imports Main "HOL-Library.Log_Nat"
begin

section \<open>Python floats\<close>

text \<open>
  A Python float is a binary64 value: a finite rational, an infinity or NaN.
  The sign of zero is not kept: no comparison of the program distinguishes it.
\<close>

datatype pyfloat = Fin rat | PInf | NInf | NaN

text \<open>\<^verbatim>\<open>a < b\<close> on floats: false as soon as one side is NaN.\<close>

fun flt :: "pyfloat \<Rightarrow> pyfloat \<Rightarrow> bool" where
  "flt NaN _ = False"
| "flt _ NaN = False"
| "flt (Fin a) (Fin b) = (a < b)"
| "flt (Fin _) PInf = True"
| "flt (Fin _) NInf = False"
| "flt PInf _ = False"
| "flt NInf NInf = False"
| "flt NInf _ = True"

text \<open>\<^verbatim>\<open>a > b\<close> is \<^verbatim>\<open>b < a\<close>.\<close>

definition fgt :: "pyfloat \<Rightarrow> pyfloat \<Rightarrow> bool" where
  "fgt a b = flt b a"

text \<open>\<^verbatim>\<open>a <= b\<close> on floats: again false on NaN.\<close>

fun fle :: "pyfloat \<Rightarrow> pyfloat \<Rightarrow> bool" where
  "fle NaN _ = False"
| "fle _ NaN = False"
| "fle (Fin a) (Fin b) = (a \<le> b)"
| "fle (Fin _) PInf = True"
| "fle (Fin _) NInf = False"
| "fle PInf PInf = True"
| "fle PInf _ = False"
| "fle NInf _ = True"

text \<open>
  Rounding of a rational to the nearest binary64 value, ties to even: 53 bits of
  mantissa \<open>m\<close> at the exponent \<open>ex\<close>, which is at least \<open>-1074\<close> (subnormals);
  a result of \<open>2\<^sup>1\<^sup>0\<^sup>2\<^sup>4\<close> or more, that is \<open>1024 < bitlen m + ex\<close>, is an infinity.
\<close>

definition pow2 :: "int \<Rightarrow> rat" where
  "pow2 e = (if 0 \<le> e then 2 ^ nat e else 1 / 2 ^ nat (- e))"

definition round_half_even :: "rat \<Rightarrow> int" where
  "round_half_even q =
     (let f = \<lfloor>q\<rfloor>; d = q - of_int f
      in if d < 1 / 2 then f else if 1 / 2 < d then f + 1 else if even f then f else f + 1)"

text \<open>The binary exponent \<open>\<lfloor>log\<^sub>2 q\<rfloor>\<close> of a positive rational.\<close>

definition binexp :: "rat \<Rightarrow> int" where
  "binexp q =
     (let (p, d) = quotient_of q; e = bitlen p - bitlen d
      in if pow2 e \<le> q then e else e - 1)"

definition round64 :: "rat \<Rightarrow> pyfloat" where
  "round64 q =
     (if q = 0 then Fin 0
      else let a = \<bar>q\<bar>;
               ex = max (binexp a - 52) (- 1074);
               m = round_half_even (a / pow2 ex)
           in if 1024 < bitlen m + ex then (if 0 < q then PInf else NInf)
              else Fin (if 0 < q then of_int m * pow2 ex else - (of_int m * pow2 ex)))"

text \<open>\<^verbatim>\<open>a * b\<close> on floats.\<close>

fun fmul :: "pyfloat \<Rightarrow> pyfloat \<Rightarrow> pyfloat" where
  "fmul NaN _ = NaN"
| "fmul _ NaN = NaN"
| "fmul (Fin a) (Fin b) = round64 (a * b)"
| "fmul (Fin a) PInf = (if a = 0 then NaN else if 0 < a then PInf else NInf)"
| "fmul (Fin a) NInf = (if a = 0 then NaN else if 0 < a then NInf else PInf)"
| "fmul PInf (Fin b) = (if b = 0 then NaN else if 0 < b then PInf else NInf)"
| "fmul NInf (Fin b) = (if b = 0 then NaN else if 0 < b then NInf else PInf)"
| "fmul PInf PInf = PInf"
| "fmul PInf NInf = NInf"
| "fmul NInf PInf = NInf"
| "fmul NInf NInf = PInf"

section \<open>Python string operations\<close>

text \<open>
  A Python \<^verbatim>\<open>str\<close> is modelled as a \<open>string\<close>: its characters are the code points
  below 256. The builtins the two tools call are modelled after CPython 3.11.
\<close>

datatype error = ValueError | InvalidData | OSError

text \<open>
  \<^verbatim>\<open>str.splitlines()\<close>: a line ends at LF, CR, CR LF, VT, FF, FS, GS, RS or NEL; the
  line ends are dropped and no empty last line is produced.
\<close>

definition is_linebreak :: "char \<Rightarrow> bool" where
  "is_linebreak c = (c \<in> set [CHR 0x0A, CHR 0x0B, CHR 0x0C, CHR 0x0D,
                                   CHR 0x1C, CHR 0x1D, CHR 0x1E, CHR 0x85])"

fun splitlines_from :: "string \<Rightarrow> string \<Rightarrow> string list" where
  "splitlines_from cur [] = (if cur = [] then [] else [cur])"
| "splitlines_from cur (c # cs) =
     (if c = CHR 0x0D then
        (case cs of
           [] \<Rightarrow> [cur]
         | d # ds \<Rightarrow> if d = CHR 0x0A then cur # splitlines_from [] ds
                     else cur # splitlines_from [] (d # ds))
      else if is_linebreak c then cur # splitlines_from [] cs
      else splitlines_from (cur @ [c]) cs)"

definition splitlines :: "string \<Rightarrow> string list" where
  "splitlines s = splitlines_from [] s"

text \<open>\<^verbatim>\<open>s.split(sep)\<close> for a one-character separator: always at least one piece.\<close>

fun split_on :: "char \<Rightarrow> string \<Rightarrow> string list" where
  "split_on sep [] = [[]]"
| "split_on sep (c # cs) =
     (if c = sep then [] # split_on sep cs
      else (case split_on sep cs of [] \<Rightarrow> [[c]] | p # ps \<Rightarrow> (c # p) # ps))"

text \<open>
  \<^verbatim>\<open>float(x)\<close> on a string: surrounding whitespace is stripped, an underscore may
  stand between two digits, then comes an optional sign and either \<^verbatim>\<open>inf\<close>,
  \<^verbatim>\<open>infinity\<close>, \<^verbatim>\<open>nan\<close> (in any case) or a decimal number with an optional
  exponent. Any other text raises ValueError. The decimal value is rounded
  correctly to binary64.
\<close>

definition is_space :: "char \<Rightarrow> bool" where
  "is_space c = (c \<in> set [CHR 0x09, CHR 0x0A, CHR 0x0B, CHR 0x0C, CHR 0x0D,
                              CHR 0x20, CHR 0x85, CHR 0xA0])"

definition is_digit :: "char \<Rightarrow> bool" where
  "is_digit c = (48 \<le> (of_char c :: nat) \<and> (of_char c :: nat) \<le> 57)"

definition strip :: "string \<Rightarrow> string" where
  "strip s = rev (dropWhile is_space (rev (dropWhile is_space s)))"

fun underscores_ok :: "char \<Rightarrow> string \<Rightarrow> bool" where
  "underscores_ok prev [] = (prev \<noteq> CHR ''_'')"
| "underscores_ok prev (c # cs) =
     ((if c = CHR ''_'' then is_digit prev
       else if prev = CHR ''_'' then is_digit c else True) \<and> underscores_ok c cs)"

definition digits_val :: "string \<Rightarrow> nat" where
  "digits_val ds = foldl (\<lambda>a c. 10 * a + ((of_char c :: nat) - 48)) 0 ds"

definition lower :: "string \<Rightarrow> string" where
  "lower s = map (\<lambda>c. if 65 \<le> (of_char c :: nat) \<and> (of_char c :: nat) \<le> 90
                        then char_of ((of_char c :: nat) + 32) else c) s"

definition pow10 :: "int \<Rightarrow> rat" where
  "pow10 e = (if 0 \<le> e then 10 ^ nat e else 1 / 10 ^ nat (- e))"

text \<open>The exponent part: empty, or \<^verbatim>\<open>e\<close>, an optional sign and at least one digit.\<close>

definition exponent_of :: "string \<Rightarrow> int option" where
  "exponent_of s =
     (case s of
        [] \<Rightarrow> Some 0
      | c # r \<Rightarrow>
          if c = CHR ''e'' \<or> c = CHR ''E'' then
            (let neg = (r \<noteq> [] \<and> hd r = CHR ''-'');
                 ds = (if r \<noteq> [] \<and> (hd r = CHR ''-'' \<or> hd r = CHR ''+'') then tl r else r)
             in if ds \<noteq> [] \<and> list_all is_digit ds
                then Some (if neg then - int (digits_val ds) else int (digits_val ds))
                else None)
          else None)"

definition decimal_of :: "string \<Rightarrow> rat option" where
  "decimal_of s =
     (let ip = takeWhile is_digit s; r1 = dropWhile is_digit s;
          dot = (r1 \<noteq> [] \<and> hd r1 = CHR ''.'');
          fp = (if dot then takeWhile is_digit (tl r1) else []);
          r2 = (if dot then dropWhile is_digit (tl r1) else r1)
      in if ip = [] \<and> fp = [] then None
         else (case exponent_of r2 of
                 None \<Rightarrow> None
               | Some e \<Rightarrow> Some (of_nat (digits_val (ip @ fp)) * pow10 (e - int (length fp)))))"

definition float_of_str :: "string \<Rightarrow> error + pyfloat" where
  "float_of_str x =
     (let s = strip x in
      if \<not> underscores_ok CHR ''x'' s then Inl ValueError
      else
        let t = filter (\<lambda>c. c \<noteq> CHR ''_'') s;
            neg = (t \<noteq> [] \<and> hd t = CHR ''-'');
            u = (if t \<noteq> [] \<and> (hd t = CHR ''-'' \<or> hd t = CHR ''+'') then tl t else t)
        in if lower u = ''inf'' \<or> lower u = ''infinity'' then Inr (if neg then NInf else PInf)
           else if lower u = ''nan'' then Inr NaN
           else (case decimal_of u of
                   None \<Rightarrow> Inl ValueError
                 | Some q \<Rightarrow> Inr (round64 (if neg then - q else q))))"

section \<open>The range normalizer of \<^verbatim>\<open>parse\<close>\<close>

text \<open>A row of \<^verbatim>\<open>res\<close> is the two-element list \<^verbatim>\<open>[k*1e3, v]\<close>.\<close>

type_synonym sample = "pyfloat \<times> pyfloat"

text \<open>
  \<^verbatim>\<open>while len(res) >= 2 and res[1][0] < 360: res.pop(0)\<close>
\<close>

function trim_front :: "sample list \<Rightarrow> sample list" where
  "trim_front res =
     (if length res \<ge> 2 \<and> flt (fst (res ! 1)) (Fin 360) then trim_front (tl res) else res)"
  by pat_completeness auto
termination
  by (relation "measure length") auto

text \<open>
  \<^verbatim>\<open>while len(res) >= 2 and res[-2][0] > 830: res.pop(-1)\<close>
\<close>

function trim_back :: "sample list \<Rightarrow> sample list" where
  "trim_back res =
     (if length res \<ge> 2 \<and> fgt (fst (res ! (length res - 2))) (Fin 830)
      then trim_back (butlast res) else res)"
  by pat_completeness auto
termination
  by (relation "measure length") auto

declare trim_front.simps [simp del] trim_back.simps [simp del]

definition range_normalizer :: "sample list \<Rightarrow> sample list" where
  "range_normalizer res = trim_back (trim_front res)"

section \<open>\<^verbatim>\<open>parse\<close> of RefractiveIndextoPiper0.py\<close>

text \<open>
  \<^verbatim>\<open>list(map(lambda x: float(x), line.split(",")))\<close>: the first piece that is not
  a float raises.
\<close>

fun floats_of :: "string list \<Rightarrow> error + pyfloat list" where
  "floats_of [] = Inr []"
| "floats_of (x # xs) =
     (case float_of_str x of
        Inl e \<Rightarrow> Inl e
      | Inr f \<Rightarrow> (case floats_of xs of Inl e \<Rightarrow> Inl e | Inr fs \<Rightarrow> Inr (f # fs)))"

text \<open>
  \<^verbatim>\<open>k, v = list(...)\<close> raises ValueError unless there are exactly two pieces; the
  row appended is \<^verbatim>\<open>[k*1e3, v]\<close>.
\<close>

definition parse_line :: "string \<Rightarrow> error + sample" where
  "parse_line line =
     (case floats_of (split_on CHR '','' line) of
        Inl e \<Rightarrow> Inl e
      | Inr fs \<Rightarrow> (case fs of [k, v] \<Rightarrow> Inr (fmul k (Fin 1000), v) | _ \<Rightarrow> Inl ValueError))"

text \<open>The \<^verbatim>\<open>for\<close> loop over the lines, \<open>res\<close> being the rows appended so far.\<close>

fun parse_rows :: "string list \<Rightarrow> sample list \<Rightarrow> error + sample list" where
  "parse_rows [] res = Inr res"
| "parse_rows (line # ls) res =
     (if length line = 0 then parse_rows ls res
      else (case parse_line line of
              Inl e \<Rightarrow> Inl e
            | Inr row \<Rightarrow> parse_rows ls (res @ [row])))"

text \<open>
  The table returned is \<^verbatim>\<open>np.array(res)\<close> for a non-empty list of two-element rows,
  an array of shape \<open>(n, 2)\<close>: the model keeps it as the list of its rows.
  \<^verbatim>\<open>raise "Invalid data"\<close> raises (a TypeError, in Python 3): \<open>InvalidData\<close>.
\<close>

type_synonym table = "sample list"

definition parse :: "string \<Rightarrow> error + table" where
  "parse lines =
     (case parse_rows (splitlines lines) [] of
        Inl e \<Rightarrow> Inl e
      | Inr res \<Rightarrow>
          let res = range_normalizer res
          in if length res = 0 then Inl InvalidData else Inr res)"

section \<open>The conversion of one CSV file\<close>

text \<open>\<^verbatim>\<open>s.find(sub)\<close>: the least index where \<open>sub\<close> starts, or \<open>-1\<close>.\<close>

fun find_from :: "nat \<Rightarrow> string \<Rightarrow> string \<Rightarrow> int" where
  "find_from i sub [] = (if sub = [] then int i else - 1)"
| "find_from i sub (c # cs) =
     (if take (length sub) (c # cs) = sub then int i else find_from (Suc i) sub cs)"

definition find :: "string \<Rightarrow> string \<Rightarrow> int" where
  "find s sub = find_from 0 sub s"

text \<open>
  Slices \<^verbatim>\<open>s[a:b]\<close> and \<^verbatim>\<open>s[a:]\<close>: a negative index counts from the end, and both
  are clamped to the string.
\<close>

definition slice_index :: "int \<Rightarrow> nat \<Rightarrow> nat" where
  "slice_index i n = (if i < 0 then nat (max 0 (i + int n)) else min (nat i) n)"

definition slice :: "string \<Rightarrow> int \<Rightarrow> int \<Rightarrow> string" where
  "slice s a b = drop (slice_index a (length s)) (take (slice_index b (length s)) s)"

definition slice_from :: "string \<Rightarrow> int \<Rightarrow> string" where
  "slice_from s a = drop (slice_index a (length s)) s"

datatype json = JNum pyfloat | JStr string | JList "json list" | JObj "(string \<times> json) list"

text \<open>\<^verbatim>\<open>tolist()\<close> of an array of shape \<open>(n, 2)\<close>.\<close>

definition tolist :: "table \<Rightarrow> json" where
  "tolist t = JList (map (\<lambda>(w, v). JList [JNum w, JNum v]) t)"

definition texture :: "json \<Rightarrow> json" where
  "texture arr = JObj [(''Type'', JStr ''SampledSpectrumTexture''), (''Array'', arr)]"

text \<open>
  Lines 69 to 78: the two sections and their tables. The float literal \<^verbatim>\<open>1e-3\<close> is
  the binary64 value nearest to \<open>1/1000\<close>; \<^verbatim>\<open>np.transpose(k)[1]\<close> is the column of
  the values.
\<close>

definition tables :: "string \<Rightarrow> error + table \<times> table option" where
  "tables data =
     (if find data ''wl,k'' \<noteq> - 1 then
        (case parse (slice data (find data ''wl,n'' + 4) (find data ''wl,k'')) of
           Inl e \<Rightarrow> Inl e
         | Inr eta \<Rightarrow>
             (case parse (slice_from data (find data ''wl,k'' + 4)) of
                Inl e \<Rightarrow> Inl e
              | Inr k \<Rightarrow> Inr (eta, Some k)))
      else
        (case parse (slice_from data (find data ''wl,n'' + 4)) of
           Inl e \<Rightarrow> Inl e
         | Inr eta \<Rightarrow> Inr (eta, None)))"

definition negligible :: "table \<Rightarrow> bool" where
  "negligible k = list_all (\<lambda>v. flt v (round64 (1 / 1000))) (map snd k)"

definition drop_negligible :: "table option \<Rightarrow> table option" where
  "drop_negligible k =
     (case k of None \<Rightarrow> None | Some t \<Rightarrow> if negligible t then None else Some t)"

text \<open>Lines 81 to 92: the object written (building it cannot fail).\<close>

definition build_obj :: "table \<Rightarrow> table option \<Rightarrow> json" where
  "build_obj eta k =
     JObj ([(''Eta'', texture (tolist eta))] @
           (case k of
              None \<Rightarrow> []
            | Some t \<Rightarrow> if length t > 0 then [(''K'', texture (tolist t))] else []))"

text \<open>Lines 69 to 92: from the text of a file to the object written for it.\<close>

definition convert :: "string \<Rightarrow> error + json" where
  "convert data =
     (case tables data of
        Inl e \<Rightarrow> Inl e
      | Inr (eta, k) \<Rightarrow> Inr (build_obj eta (drop_negligible k)))"

fun has_key :: "string \<Rightarrow> json \<Rightarrow> bool" where
  "has_key key (JObj kvs) = (key \<in> set (map fst kvs))"
| "has_key key _ = False"

section \<open>The command-line tool RefractiveIndextoPiper0.py\<close>

text \<open>
  What the tools see of the file system: the \<open>(r, fs)\<close> of every directory that
  \<^verbatim>\<open>os.walk(path)\<close> visits, the text a file gives when it is opened for reading
  (or the error raised), and whether a path can be opened for writing.
\<close>

record env =
  walk :: "string \<Rightarrow> (string \<times> string list) list"
  read_text :: "string \<Rightarrow> error + string"
  writable :: "string \<Rightarrow> bool"

text \<open>
  What a run does: the lines printed, the directories walked, the files opened
  for reading and the objects written, in order.
\<close>

record world =
  stdout :: "string list"
  walked :: "string list"
  opened :: "string list"
  written :: "(string \<times> json) list"

datatype outcome = Finished | Exit int | Raised error

definition endswith :: "string \<Rightarrow> string \<Rightarrow> bool" where
  "endswith s suf = (length suf \<le> length s \<and> drop (length s - length suf) s = suf)"

definition removesuffix :: "string \<Rightarrow> string \<Rightarrow> string" where
  "removesuffix s suf =
     (if suf \<noteq> [] \<and> endswith s suf then take (length s - length suf) s else s)"

definition print :: "string \<Rightarrow> world \<Rightarrow> world" where
  "print line w = w\<lparr>stdout := stdout w @ [line]\<rparr>"

text \<open>Lines 56 to 60: the \<^verbatim>\<open>.csv\<close> files under the path.\<close>

definition csv_materials :: "(string \<times> string list) list \<Rightarrow> (string \<times> string) list" where
  "csv_materials dirs =
     concat (map (\<lambda>(r, fs). map (\<lambda>f. (removesuffix f ''.csv'', r @ ''/'' @ f))
                                 (filter (\<lambda>f. endswith f ''.csv'') fs)) dirs)"

text \<open>
  Lines 62 to 94: one material after the other; an error ends the run. The output
  file is opened once the tables have been parsed.
\<close>

fun run_csv :: "env \<Rightarrow> (string \<times> string) list \<Rightarrow> world \<Rightarrow> outcome \<times> world" where
  "run_csv e [] w = (Finished, w)"
| "run_csv e ((name, eta) # ms) w =
     (let w1 = print (''Generating '' @ name) w;
          w2 = w1\<lparr>opened := opened w1 @ [eta]\<rparr>
      in case read_text e eta of
           Inl err \<Rightarrow> (Raised err, w2)
         | Inr data \<Rightarrow>
             (case convert data of
                Inl err \<Rightarrow> (Raised err, w2)
              | Inr obj \<Rightarrow>
                  let out = ''ior/'' @ name @ ''.json''
                  in if \<not> writable e out then (Raised OSError, w2)
                     else run_csv e ms (w2\<lparr>written := written w2 @ [(out, obj)]\<rparr>)))"

text \<open>
  Lines 48 to 52. \<^verbatim>\<open>sys.argv\<close> holds the name of the script and the arguments, so
  one positional argument is a length of two.
\<close>

definition main_csv :: "env \<Rightarrow> string list \<Rightarrow> world \<Rightarrow> outcome \<times> world" where
  "main_csv e argv w =
     (if length argv \<noteq> 2 then (Exit (- 1), print ''Please input the path to data files'' w)
      else let path = argv ! 1
           in run_csv e (csv_materials (walk e path)) (w\<lparr>walked := walked w @ [path]\<rparr>))"

section \<open>The command-line tool mitsuba2toPiper0.py\<close>

text \<open>
  numpy is not part of the repository. \<^verbatim>\<open>np.loadtxt(path)\<close> is modelled after its
  documentation, for the default arguments: the text after a \<^verbatim>\<open>#\<close> is a comment,
  a line is split at whitespace into cells, a line without cells is skipped, the
  cells are converted to floats (here: as \<^verbatim>\<open>float\<close> does), a row of another
  length than the first raises ValueError, and with \<^verbatim>\<open>ndmin=0\<close> every axis of
  length one is squeezed out of the result.
\<close>

datatype ndarray = A0 pyfloat | A1 "pyfloat list" | A2 "pyfloat list list"

definition is_unicode_space :: "char \<Rightarrow> bool" where
  "is_unicode_space c = (is_space c \<or> c \<in> set [CHR 0x1C, CHR 0x1D, CHR 0x1E, CHR 0x1F])"

fun cells_from :: "string \<Rightarrow> string \<Rightarrow> string list" where
  "cells_from cur [] = (if cur = [] then [] else [cur])"
| "cells_from cur (c # cs) =
     (if is_unicode_space c then (if cur = [] then [] else [cur]) @ cells_from [] cs
      else cells_from (cur @ [c]) cs)"

fun loadtxt_rows :: "string list \<Rightarrow> error + pyfloat list list" where
  "loadtxt_rows [] = Inr []"
| "loadtxt_rows (line # ls) =
     (let cells = cells_from [] (takeWhile (\<lambda>c. c \<noteq> CHR ''#'') line)
      in if cells = [] then loadtxt_rows ls
         else (case floats_of cells of
                 Inl e \<Rightarrow> Inl e
               | Inr row \<Rightarrow>
                   (case loadtxt_rows ls of Inl e \<Rightarrow> Inl e | Inr rows \<Rightarrow> Inr (row # rows))))"

definition squeeze :: "pyfloat list list \<Rightarrow> ndarray" where
  "squeeze rows =
     (case rows of
        [] \<Rightarrow> A1 []
      | [row] \<Rightarrow> (case row of [x] \<Rightarrow> A0 x | _ \<Rightarrow> A1 row)
      | _ \<Rightarrow> if list_all (\<lambda>row. length row = 1) rows then A1 (concat rows) else A2 rows)"

definition loadtxt_text :: "string \<Rightarrow> error + ndarray" where
  "loadtxt_text text =
     (case loadtxt_rows (split_on CHR 0x0A text) of
        Inl e \<Rightarrow> Inl e
      | Inr rows \<Rightarrow>
          (case rows of
             [] \<Rightarrow> Inr (squeeze [])
           | first # _ \<Rightarrow>
               if list_all (\<lambda>row. length row = length first) rows then Inr (squeeze rows)
               else Inl ValueError))"

definition loadtxt :: "env \<Rightarrow> string \<Rightarrow> world \<Rightarrow> (error + ndarray) \<times> world" where
  "loadtxt e path w =
     (let w1 = w\<lparr>opened := opened w @ [path]\<rparr>
      in case read_text e path of
           Inl err \<Rightarrow> (Inl err, w1)
         | Inr text \<Rightarrow> (loadtxt_text text, w1))"

text \<open>\<^verbatim>\<open>tolist()\<close> of an array of any of the three shapes.\<close>

fun tolist_nd :: "ndarray \<Rightarrow> json" where
  "tolist_nd (A0 x) = JNum x"
| "tolist_nd (A1 xs) = JList (map JNum xs)"
| "tolist_nd (A2 rows) = JList (map (\<lambda>row. JList (map JNum row)) rows)"

text \<open>\<^verbatim>\<open>s.replace(old, new)\<close>: every occurrence of \<open>old\<close>, from the left.\<close>

fun replace_from :: "nat \<Rightarrow> string \<Rightarrow> string \<Rightarrow> string \<Rightarrow> string" where
  "replace_from skip old new [] = []"
| "replace_from skip old new (c # cs) =
     (if 0 < skip then replace_from (skip - 1) old new cs
      else if take (length old) (c # cs) = old then new @ replace_from (length old - 1) old new cs
      else c # replace_from 0 old new cs)"

definition replace :: "string \<Rightarrow> string \<Rightarrow> string \<Rightarrow> string" where
  "replace s old new =
     (if old = [] then new @ concat (map (\<lambda>c. c # new) s) else replace_from 0 old new s)"

text \<open>Lines 34 to 39: the \<^verbatim>\<open>.eta.spd\<close> files and their \<^verbatim>\<open>.k.spd\<close> siblings.\<close>

definition mitsuba_materials ::
  "(string \<times> string list) list \<Rightarrow> (string \<times> string \<times> string) list" where
  "mitsuba_materials dirs =
     concat (map (\<lambda>(r, fs). map (\<lambda>f. (removesuffix f ''.eta.spd'', r @ ''/'' @ f,
                                         r @ ''/'' @ replace f ''.eta.spd'' ''.k.spd''))
                                 (filter (\<lambda>f. endswith f ''.eta.spd'') fs)) dirs)"

text \<open>Lines 48 to 57: the object written.\<close>

definition mitsuba_obj :: "ndarray \<Rightarrow> ndarray \<Rightarrow> json" where
  "mitsuba_obj eta k =
     JObj [(''Eta'', texture (tolist_nd eta)), (''K'', texture (tolist_nd k))]"

text \<open>Lines 41 to 59.\<close>

fun run_mitsuba ::
  "env \<Rightarrow> (string \<times> string \<times> string) list \<Rightarrow> world \<Rightarrow> outcome \<times> world" where
  "run_mitsuba e [] w = (Finished, w)"
| "run_mitsuba e ((name, eta, k) # ms) w =
     (let w1 = print (''Generating '' @ name) w
      in case loadtxt e eta w1 of
           (Inl err, w2) \<Rightarrow> (Raised err, w2)
         | (Inr eta, w2) \<Rightarrow>
             (case loadtxt e k w2 of
                (Inl err, w3) \<Rightarrow> (Raised err, w3)
              | (Inr k, w3) \<Rightarrow>
                  let out = ''ior/'' @ name @ ''.json''
                  in if \<not> writable e out then (Raised OSError, w3)
                     else run_mitsuba e ms
                            (w3\<lparr>written := written w3 @ [(out, mitsuba_obj eta k)]\<rparr>)))"

text \<open>Lines 26 to 30.\<close>

definition main_mitsuba :: "env \<Rightarrow> string list \<Rightarrow> world \<Rightarrow> outcome \<times> world" where
  "main_mitsuba e argv w =
     (if length argv \<noteq> 2
      then (Exit (- 1), print ''Please input the root path to mitsuba2's source'' w)
      else let path = argv ! 1 @ ''/resources/data/ior''
           in run_mitsuba e (mitsuba_materials (walk e path)) (w\<lparr>walked := walked w @ [path]\<rparr>))"

section \<open>The range normalizer in the words of the specification\<close>

text \<open>
  Discard the first sample while the table has at least two samples and the
  wavelength of the second is below 360.
\<close>

fun spec_discard_first :: "sample list \<Rightarrow> sample list" where
  "spec_discard_first [] = []"
| "spec_discard_first [a] = [a]"
| "spec_discard_first (a # b # rest) =
     (if flt (fst b) (Fin 360) then spec_discard_first (b # rest) else a # b # rest)"

text \<open>
  Discard the last sample while the table has at least two samples and the
  wavelength of the second-to-last is above 830; the table is read from its end.
\<close>

fun spec_discard_last_rev :: "sample list \<Rightarrow> sample list" where
  "spec_discard_last_rev [] = []"
| "spec_discard_last_rev [a] = [a]"
| "spec_discard_last_rev (a # b # rest) =
     (if fgt (fst b) (Fin 830) then spec_discard_last_rev (b # rest) else a # b # rest)"

definition spec_normalizer :: "sample list \<Rightarrow> sample list" where
  "spec_normalizer res = rev (spec_discard_last_rev (rev (spec_discard_first res)))"

section \<open>Notions the properties are stated with\<close>

text \<open>A wavelength within the band from 360 to 830 nanometers.\<close>

definition in_band :: "pyfloat \<Rightarrow> bool" where
  "in_band w = (fle (Fin 360) w \<and> fle w (Fin 830))"

text \<open>
  Where a text contains another: \<open>sub\<close> occurs in \<open>s\<close> at index \<open>i\<close>; it occurs
  somewhere; its first occurrence is at \<open>i\<close>.
\<close>

definition occurs_at :: "string \<Rightarrow> string \<Rightarrow> nat \<Rightarrow> bool" where
  "occurs_at s sub i = (i + length sub \<le> length s \<and> take (length sub) (drop i s) = sub)"

definition contains :: "string \<Rightarrow> string \<Rightarrow> bool" where
  "contains s sub = list_ex (occurs_at s sub) [0..<Suc (length s)]"

definition first_at :: "string \<Rightarrow> string \<Rightarrow> nat \<Rightarrow> bool" where
  "first_at s sub i = (occurs_at s sub i \<and> \<not> list_ex (occurs_at s sub) [0..<i])"

text \<open>
  The negligibility test in the words of the specification: every value of the
  table is below \<^verbatim>\<open>1e-3\<close> in magnitude.
\<close>

fun fabs :: "pyfloat \<Rightarrow> pyfloat" where
  "fabs (Fin q) = Fin \<bar>q\<bar>"
| "fabs PInf = PInf"
| "fabs NInf = PInf"
| "fabs NaN = NaN"

definition spec_negligible :: "table \<Rightarrow> bool" where
  "spec_negligible k = list_all (\<lambda>v. flt (fabs v) (round64 (1 / 1000))) (map snd k)"

text \<open>
  The texts that lines 71 to 75 hand to \<^verbatim>\<open>parse\<close>: the real-index section and,
  when \<^verbatim>\<open>wl,k\<close> occurs, the imaginary-index section. The rows parsed from a
  section are in ascending order of wavelength.
\<close>

definition sections :: "string \<Rightarrow> string list" where
  "sections data =
     (if find data ''wl,k'' \<noteq> - 1
      then [slice data (find data ''wl,n'' + 4) (find data ''wl,k''),
            slice_from data (find data ''wl,k'' + 4)]
      else [slice_from data (find data ''wl,n'' + 4)])"

definition rows_sorted :: "string \<Rightarrow> bool" where
  "rows_sorted sec =
     (case parse_rows (splitlines sec) [] of
        Inl e \<Rightarrow> True
      | Inr res \<Rightarrow> sorted_wrt fle (map fst res))"

text \<open>
  Reading the object that is written: the member \<open>key\<close> of an object, the list
  under \<^verbatim>\<open>obj[key]["Array"]\<close>, and the wavelength of an entry \<^verbatim>\<open>[w, v]\<close> of it.
  A written table is in order when it has at least one entry and every entry
  other than the first and the last is a pair whose wavelength is in the band.
\<close>

fun json_get :: "string \<Rightarrow> json \<Rightarrow> json option" where
  "json_get key (JObj kvs) = map_of kvs key"
| "json_get key (JNum x) = None"
| "json_get key (JStr s) = None"
| "json_get key (JList xs) = None"

definition emitted_array :: "string \<Rightarrow> json \<Rightarrow> json list option" where
  "emitted_array key obj =
     (case json_get key obj of
        None \<Rightarrow> None
      | Some tex \<Rightarrow>
          (case json_get ''Array'' tex of
             Some (JList xs) \<Rightarrow> Some xs
           | _ \<Rightarrow> None))"

definition wavelength_of :: "json \<Rightarrow> pyfloat option" where
  "wavelength_of x =
     (case x of
        JList [JNum w, JNum v] \<Rightarrow> Some w
      | _ \<Rightarrow> None)"

definition band_invariant :: "json list \<Rightarrow> bool" where
  "band_invariant arr =
     (1 \<le> length arr \<and>
      list_all (\<lambda>x. case wavelength_of x of None \<Rightarrow> False | Some w \<Rightarrow> in_band w)
               (butlast (tl arr)))"

definition table_ok :: "string \<Rightarrow> json \<Rightarrow> bool" where
  "table_ok key obj =
     (case emitted_array key obj of None \<Rightarrow> False | Some arr \<Rightarrow> band_invariant arr)"

section \<open>Properties of the range normalizer\<close>

lemma trim_front_spec: "trim_front res = spec_discard_first res"
proof (induction res rule: spec_discard_first.induct)
  case 1
  show ?case by (subst trim_front.simps) simp
next
  case (2 a)
  show ?case by (subst trim_front.simps) simp
next
  case (3 a b rest)
  then show ?case by (subst trim_front.simps) simp
qed

lemma trim_back_rev: "trim_back (rev xs) = rev (spec_discard_last_rev xs)"
proof (induction xs rule: spec_discard_last_rev.induct)
  case 1
  show ?case by (subst trim_back.simps) simp
next
  case (2 a)
  show ?case by (subst trim_back.simps) simp
next
  case (3 a b rest)
  have idx: "(rev rest @ [b, a]) ! (length rest) = b"
    by (simp add: nth_append)
  have bl: "butlast (rev rest @ [b, a]) = rev rest @ [b]"
    by (simp add: butlast_append)
  show ?case
    using 3 by (subst trim_back.simps) (simp add: idx bl)
qed

lemma trim_back_spec: "trim_back res = rev (spec_discard_last_rev (rev res))"
  using trim_back_rev [of "rev res"] by simp

text \<open>
  C2: the normalizer that \<^verbatim>\<open>parse\<close> applies to its rows is the one the
  specification describes: first the samples at the front are discarded while
  there are at least two and the second is below 360 nm, then those at the back
  while there are at least two and the second-to-last is above 830 nm.
\<close>

theorem parse_normalizer_is_spec:
  "range_normalizer res = spec_normalizer res \<and>
   parse lines =
     (case parse_rows (splitlines lines) [] of
        Inl e \<Rightarrow> Inl e
      | Inr res \<Rightarrow> if spec_normalizer res = [] then Inl InvalidData
                   else Inr (spec_normalizer res))"
proof -
  have eq: "\<And>r. range_normalizer r = spec_normalizer r"
    by (simp add: range_normalizer_def spec_normalizer_def trim_front_spec trim_back_spec)
  show ?thesis
    by (simp add: eq parse_def Let_def split: sum.splits)
qed

lemma fle_not_flt: "fle a b \<Longrightarrow> \<not> flt b a"
  by (cases a; cases b) auto

lemma fle_trans: "fle a b \<Longrightarrow> fle b c \<Longrightarrow> fle a c"
  by (cases a; cases b; cases c) auto

lemma not_flt_fle: "\<not> flt a c \<Longrightarrow> fle a b \<Longrightarrow> fle c (Fin q) \<Longrightarrow> fle (Fin q) c \<Longrightarrow> fle c a"
  by (cases a; cases b; cases c) auto

lemma trim_front_fix:
  "\<not> (length res \<ge> 2 \<and> flt (fst (res ! 1)) (Fin 360)) \<Longrightarrow> trim_front res = res"
  by (subst trim_front.simps) auto

lemma trim_back_fix:
  "\<not> (length res \<ge> 2 \<and> fgt (fst (res ! (length res - 2))) (Fin 830)) \<Longrightarrow> trim_back res = res"
  by (subst trim_back.simps) auto

lemma trim_front_post:
  "\<not> (length (trim_front res) \<ge> 2 \<and> flt (fst (trim_front res ! 1)) (Fin 360))"
proof (induction res rule: trim_front.induct)
  case (1 res)
  show ?case
  proof (cases "length res \<ge> 2 \<and> flt (fst (res ! 1)) (Fin 360)")
    case True
    then have "trim_front res = trim_front (tl res)" by (subst trim_front.simps) simp
    with 1 True show ?thesis by simp
  next
    case False
    then show ?thesis by (simp add: trim_front_fix)
  qed
qed

lemma trim_back_post:
  "\<not> (length (trim_back res) \<ge> 2 \<and>
      fgt (fst (trim_back res ! (length (trim_back res) - 2))) (Fin 830))"
proof (induction res rule: trim_back.induct)
  case (1 res)
  show ?case
  proof (cases "length res \<ge> 2 \<and> fgt (fst (res ! (length res - 2))) (Fin 830)")
    case True
    then have "trim_back res = trim_back (butlast res)" by (subst trim_back.simps) simp
    with 1 True show ?thesis by simp
  next
    case False
    then show ?thesis by (simp add: trim_back_fix)
  qed
qed

lemma trim_front_drop: "\<exists>n. trim_front res = drop n res"
proof (induction res rule: trim_front.induct)
  case (1 res)
  show ?case
  proof (cases "length res \<ge> 2 \<and> flt (fst (res ! 1)) (Fin 360)")
    case True
    then have "trim_front res = trim_front (tl res)" by (subst trim_front.simps) simp
    moreover from 1 True obtain n where "trim_front (tl res) = drop n (tl res)" by blast
    ultimately have "trim_front res = drop (Suc n) res" by (simp add: drop_Suc)
    then show ?thesis ..
  next
    case False
    then have "trim_front res = drop 0 res" by (simp add: trim_front_fix)
    then show ?thesis ..
  qed
qed

lemma trim_back_take: "\<exists>n. trim_back res = take n res"
proof (induction res rule: trim_back.induct)
  case (1 res)
  show ?case
  proof (cases "length res \<ge> 2 \<and> fgt (fst (res ! (length res - 2))) (Fin 830)")
    case True
    then have "trim_back res = trim_back (butlast res)" by (subst trim_back.simps) simp
    moreover from 1 True obtain n where "trim_back (butlast res) = take n (butlast res)" by blast
    ultimately have "trim_back res = take (min n (length res - 1)) res"
      by (simp add: butlast_conv_take min.commute)
    then show ?thesis ..
  next
    case False
    then have "trim_back res = take (length res) res" by (simp add: trim_back_fix)
    then show ?thesis ..
  qed
qed

lemma trim_back_keeps_front:
  "\<not> (length res \<ge> 2 \<and> flt (fst (res ! 1)) (Fin 360)) \<Longrightarrow>
   \<not> (length (trim_back res) \<ge> 2 \<and> flt (fst (trim_back res ! 1)) (Fin 360))"
proof -
  assume a: "\<not> (length res \<ge> 2 \<and> flt (fst (res ! 1)) (Fin 360))"
  obtain n where n: "trim_back res = take n res" using trim_back_take by blast
  show ?thesis using a by (auto simp: n)
qed




lemma range_normalizer_Nil: "range_normalizer [] = []"
  by (simp add: range_normalizer_def trim_front_fix trim_back_fix)

lemma in_band_unchanged:
  assumes "list_all (\<lambda>s. in_band (fst s)) res"
  shows "range_normalizer res = res"
proof -
  have all: "\<And>i. i < length res \<Longrightarrow> in_band (fst (res ! i))"
    using assms by (simp add: list_all_length)
  have "\<not> (length res \<ge> 2 \<and> flt (fst (res ! 1)) (Fin 360))"
    using all [of 1] fle_not_flt by (auto simp: in_band_def)
  moreover have "\<not> (length res \<ge> 2 \<and> fgt (fst (res ! (length res - 2))) (Fin 830))"
    using all [of "length res - 2"] fle_not_flt by (auto simp: in_band_def fgt_def)
  ultimately show ?thesis
    by (simp add: range_normalizer_def trim_front_fix trim_back_fix)
qed

lemma range_normalizer_idem: "range_normalizer (range_normalizer res) = range_normalizer res"
proof -
  let ?t = "trim_back (trim_front res)"
  have "trim_front ?t = ?t"
    by (rule trim_front_fix) (rule trim_back_keeps_front, rule trim_front_post)
  moreover have "trim_back ?t = ?t"
    by (rule trim_back_fix) (rule trim_back_post)
  ultimately show ?thesis by (simp add: range_normalizer_def)
qed

text \<open>
  C9: a table whose wavelengths all lie within 360 to 830 nm is returned as it
  is, since neither loop removes a sample; and normalizing a second time changes
  nothing, for every table.
\<close>

theorem normalizer_identity_in_band:
  "(list_all (\<lambda>s. in_band (fst s)) res \<longrightarrow> range_normalizer res = res) \<and>
   range_normalizer (range_normalizer res) = range_normalizer res"
  using in_band_unchanged range_normalizer_idem by blast

theorem normalizer_identity_in_band_witness:
  "list_all (\<lambda>s. in_band (fst s)) [(Fin 400, Fin 1), (Fin 500, Fin 2)] \<and>
   range_normalizer [(Fin 400, Fin 1), (Fin 500, Fin 2)] = [(Fin 400, Fin 1), (Fin 500, Fin 2)]"
proof -
  have h: "list_all (\<lambda>s. in_band (fst s)) [(Fin 400, Fin 1), (Fin 500, Fin 2)]"
    by (simp add: in_band_def)
  then show ?thesis
    using normalizer_identity_in_band [of "[(Fin 400, Fin 1), (Fin 500, Fin 2)]"] by blast
qed

lemma interior_in_band:
  assumes sorted: "sorted_wrt fle (map fst res)"
    and i: "0 < i" "i + 1 < length (range_normalizer res)"
  shows "in_band (fst (range_normalizer res ! i))"
proof -
  let ?t = "range_normalizer res"
  obtain n where n: "trim_front res = drop n res" using trim_front_drop by blast
  obtain m where m: "?t = take m (drop n res)"
    using trim_back_take [of "trim_front res"] by (auto simp: range_normalizer_def n)
  have st: "sorted_wrt fle (map fst ?t)"
    unfolding m using sorted
    by (simp add: take_map [symmetric] drop_map [symmetric] sorted_wrt_take sorted_wrt_drop)
  have ord: "\<And>a b. a < b \<Longrightarrow> b < length ?t \<Longrightarrow> fle (fst (?t ! a)) (fst (?t ! b))"
    using st by (simp add: sorted_wrt_iff_nth_less)
  have front: "\<not> flt (fst (?t ! 1)) (Fin 360)"
    using trim_back_keeps_front [OF trim_front_post [of res]] i
    by (simp add: range_normalizer_def)
  have bk: "\<not> fgt (fst (?t ! (length ?t - 2))) (Fin 830)"
    using trim_back_post [of "trim_front res"] i by (simp add: range_normalizer_def)
  have lo1: "fle (Fin 360) (fst (?t ! 1))"
    using front ord [of 1 "i + 1"] i not_flt_fle [of "fst (?t ! 1)" "Fin 360" _ 360] by auto
  have lo: "fle (Fin 360) (fst (?t ! i))"
  proof (cases "i = 1")
    case True then show ?thesis using lo1 by simp
  next
    case False
    then have "fle (fst (?t ! 1)) (fst (?t ! i))" using ord [of 1 i] i by simp
    then show ?thesis using lo1 fle_trans by blast
  qed
  have nn: "fle (fst (?t ! (i - 1))) (fst (?t ! (length ?t - 2)))"
    using ord [of "i - 1" "length ?t - 2"] i by simp
  have hi1: "fle (fst (?t ! (length ?t - 2))) (Fin 830)"
    using bk nn by (cases "fst (?t ! (length ?t - 2))"; cases "fst (?t ! (i - 1))") (auto simp: fgt_def)
  have hi: "fle (fst (?t ! i)) (Fin 830)"
  proof (cases "i = length ?t - 2")
    case True then show ?thesis using hi1 by simp
  next
    case False
    then have "fle (fst (?t ! i)) (fst (?t ! (length ?t - 2)))"
      using ord [of i "length ?t - 2"] i by simp
    then show ?thesis using hi1 fle_trans by blast
  qed
  show ?thesis using lo hi by (simp add: in_band_def)
qed

section \<open>Properties of \<^verbatim>\<open>parse\<close>\<close>









lemma parse_nonempty: "parse lines = Inr t \<Longrightarrow> t \<noteq> []"
  by (auto simp: parse_def Let_def split: sum.splits if_splits)




text \<open>
  C6: the section of three rows \<^verbatim>\<open>0.360,1.5\<close>, \<^verbatim>\<open>0.5,1.6\<close>, \<^verbatim>\<open>0.83,1.7\<close> parses
  to the wavelengths 360, 500 and 830 exactly (the binary64 products
  \<^verbatim>\<open>0.36*1e3\<close> and \<^verbatim>\<open>0.83*1e3\<close> round to 360 and 830), with the floats 1.5, 1.6
  and 1.7 as values, and the normalizer discards none of the three rows.
\<close>

theorem parse_micrometers_example:
  "parse ''0.360,1.5\<newline>0.5,1.6\<newline>0.83,1.7\<newline>'' =
     Inr [(Fin 360, Fin (3 / 2)), (Fin 500, round64 (8 / 5)), (Fin 830, round64 (17 / 10))] \<and>
   parse_rows (splitlines ''0.360,1.5\<newline>0.5,1.6\<newline>0.83,1.7\<newline>'') [] =
     Inr [(Fin 360, Fin (3 / 2)), (Fin 500, round64 (8 / 5)), (Fin 830, round64 (17 / 10))]"
  by code_simp

section \<open>Properties of the conversion of a CSV file\<close>

lemma occurs_at_Suc: "occurs_at (c # cs) sub (Suc i) = occurs_at cs sub i"
  by (simp add: occurs_at_def)

lemma occurs_at_0: "occurs_at s sub 0 = (take (length sub) s = sub)"
proof
  assume "occurs_at s sub 0"
  then show "take (length sub) s = sub" by (simp add: occurs_at_def)
next
  assume a: "take (length sub) s = sub"
  then have "length (take (length sub) s) = length sub" by simp
  then have "length sub \<le> length s" by simp
  with a show "occurs_at s sub 0" by (simp add: occurs_at_def)
qed

lemma find_from_found:
  "occurs_at s sub j \<Longrightarrow> (\<forall>k<j. \<not> occurs_at s sub k) \<Longrightarrow> find_from i sub s = int (i + j)"
proof (induction s arbitrary: i j)
  case Nil
  then show ?case by (simp add: occurs_at_def)
next
  case (Cons c cs)
  show ?case
  proof (cases "take (length sub) (c # cs) = sub")
    case True
    then have "occurs_at (c # cs) sub 0" by (simp only: occurs_at_0)
    with Cons.prems(2) have "j = 0" by (cases j) auto
    with True show ?thesis by simp
  next
    case False
    then have n0: "\<not> occurs_at (c # cs) sub 0" by (simp only: occurs_at_0) simp
    with Cons.prems(1) obtain j' where j: "j = Suc j'" by (cases j) auto
    have "occurs_at cs sub j'" using Cons.prems(1) j by (simp add: occurs_at_Suc)
    moreover have "\<forall>k<j'. \<not> occurs_at cs sub k"
    proof (intro allI impI)
      fix k assume "k < j'"
      then have "\<not> occurs_at (c # cs) sub (Suc k)" using Cons.prems(2) j by simp
      then show "\<not> occurs_at cs sub k" by (simp add: occurs_at_Suc)
    qed
    ultimately have "find_from (Suc i) sub cs = int (Suc i + j')" by (rule Cons.IH)
    with False j show ?thesis by simp
  qed
qed

lemma find_from_absent:
  "(\<forall>k\<le>length s. \<not> occurs_at s sub k) \<Longrightarrow> find_from i sub s = - 1"
proof (induction s arbitrary: i)
  case Nil
  then show ?case by (auto simp: occurs_at_def)
next
  case (Cons c cs)
  from Cons.prems have "\<not> occurs_at (c # cs) sub 0" by blast
  then have n0: "take (length sub) (c # cs) \<noteq> sub" by (simp only: occurs_at_0) simp
  have "\<forall>k\<le>length cs. \<not> occurs_at cs sub k"
  proof (intro allI impI)
    fix k assume "k \<le> length cs"
    then have "\<not> occurs_at (c # cs) sub (Suc k)" using Cons.prems by simp
    then show "\<not> occurs_at cs sub k" by (simp add: occurs_at_Suc)
  qed
  then have "find_from (Suc i) sub cs = - 1" by (rule Cons.IH)
  with n0 show ?case by simp
qed

lemma find_first: "first_at s sub i \<Longrightarrow> find s sub = int i"
  using find_from_found [of s sub i 0]
  by (auto simp: first_at_def find_def list_ex_iff)

lemma find_absent: "\<not> contains s sub \<Longrightarrow> find s sub = - 1"
proof -
  assume "\<not> contains s sub"
  then have "\<forall>k\<le>length s. \<not> occurs_at s sub k"
    by (simp add: contains_def list_ex_iff less_Suc_eq_le [symmetric] del: upt_Suc)
  then show ?thesis unfolding find_def by (rule find_from_absent)
qed

lemma first_at_bound: "first_at s sub i \<Longrightarrow> i + length sub \<le> length s"
  by (simp add: first_at_def occurs_at_def)

lemma slice_from_nat: "i \<le> length s \<Longrightarrow> slice_from s (int i) = drop i s"
  by (simp add: slice_from_def slice_index_def)

lemma slice_nat: "i \<le> length s \<Longrightarrow> j \<le> length s \<Longrightarrow> slice s (int i) (int j) = drop i (take j s)"
  by (simp add: slice_def slice_index_def)

lemma tables_without_k:
  assumes "\<not> contains data ''wl,k''" "first_at data ''wl,n'' i"
  shows "tables data =
           (case parse (drop (i + 4) data) of Inl e \<Rightarrow> Inl e | Inr eta \<Rightarrow> Inr (eta, None))"
proof -
  have "i + 4 \<le> length data" using first_at_bound [OF assms(2)] by simp
  then have "slice_from data (int i + 4) = drop (i + 4) data"
    using slice_from_nat [of "i + 4" data] by (simp add: add.commute)
  then show ?thesis
    unfolding tables_def find_absent [OF assms(1)] find_first [OF assms(2)] by simp
qed

lemma tables_with_k:
  assumes "first_at data ''wl,k'' j" "first_at data ''wl,n'' i"
  shows "tables data =
           (case parse (drop (i + 4) (take j data)) of
              Inl e \<Rightarrow> Inl e
            | Inr eta \<Rightarrow>
                (case parse (drop (j + 4) data) of
                   Inl e \<Rightarrow> Inl e
                 | Inr k \<Rightarrow> Inr (eta, Some k)))"
proof -
  have i: "i + 4 \<le> length data" using first_at_bound [OF assms(2)] by simp
  have j: "j + 4 \<le> length data" using first_at_bound [OF assms(1)] by simp
  have "slice_from data (int j + 4) = drop (j + 4) data"
    using slice_from_nat [of "j + 4" data] j by (simp add: add.commute)
  moreover have "slice data (int i + 4) (int j) = drop (i + 4) (take j data)"
    using slice_nat [of "i + 4" data j] i j by (simp add: add.commute)
  ultimately show ?thesis
    unfolding tables_def find_first [OF assms(1)] find_first [OF assms(2)]
    by (simp cong: sum.case_cong)
qed

lemma k_section:
  assumes "first_at data ''wl,k'' j"
  shows "tables data =
           (case parse (slice data (find data ''wl,n'' + 4) (int j)) of
              Inl e \<Rightarrow> Inl e
            | Inr eta \<Rightarrow>
                (case parse (drop (j + 4) data) of
                   Inl e \<Rightarrow> Inl e
                 | Inr k \<Rightarrow> Inr (eta, Some k)))"
proof -
  have j: "j + 4 \<le> length data" using first_at_bound [OF assms(1)] by simp
  have "slice_from data (int j + 4) = drop (j + 4) data"
    using slice_from_nat [of "j + 4" data] j by (simp add: add.commute)
  then show ?thesis
    unfolding tables_def find_first [OF assms(1)] by (simp cong: sum.case_cong)
qed

text \<open>
  C7: in a text without \<^verbatim>\<open>wl,k\<close>, whose first \<^verbatim>\<open>wl,n\<close> starts at \<open>i\<close>, only the
  section after that marker is parsed, and an object that is written has the key
  \<open>Eta\<close> and no key \<open>K\<close>. In a text whose first \<^verbatim>\<open>wl,k\<close> starts at \<open>j\<close>, the
  real-index section runs from after \<^verbatim>\<open>wl,n\<close> to \<open>j\<close> and the imaginary one from
  after \<^verbatim>\<open>wl,k\<close> to the end.
\<close>

theorem csv_sections:
  "(\<not> contains data ''wl,k'' \<and> first_at data ''wl,n'' i \<longrightarrow>
      tables data =
        (case parse (drop (i + 4) data) of Inl e \<Rightarrow> Inl e | Inr eta \<Rightarrow> Inr (eta, None)) \<and>
      (\<forall>obj. convert data = Inr obj \<longrightarrow> has_key ''Eta'' obj \<and> \<not> has_key ''K'' obj)) \<and>
   (first_at data ''wl,k'' j \<and> first_at data ''wl,n'' i \<longrightarrow>
      tables data =
        (case parse (drop (i + 4) (take j data)) of
           Inl e \<Rightarrow> Inl e
         | Inr eta \<Rightarrow>
             (case parse (drop (j + 4) data) of
                Inl e \<Rightarrow> Inl e
              | Inr k \<Rightarrow> Inr (eta, Some k))))"
proof (intro conjI impI allI)
  assume a: "\<not> contains data ''wl,k'' \<and> first_at data ''wl,n'' i"
  then show t: "tables data =
        (case parse (drop (i + 4) data) of Inl e \<Rightarrow> Inl e | Inr eta \<Rightarrow> Inr (eta, None))"
    using tables_without_k by blast
  fix obj assume "convert data = Inr obj"
  then obtain eta where "obj = build_obj eta None"
    by (auto simp: convert_def t drop_negligible_def split: sum.splits)
  then show "has_key ''Eta'' obj" and "\<not> has_key ''K'' obj"
    by (simp_all add: build_obj_def)
next
  assume "first_at data ''wl,k'' j \<and> first_at data ''wl,n'' i"
  then show "tables data =
        (case parse (drop (i + 4) (take j data)) of
           Inl e \<Rightarrow> Inl e
         | Inr eta \<Rightarrow>
             (case parse (drop (j + 4) data) of
                Inl e \<Rightarrow> Inl e
              | Inr k \<Rightarrow> Inr (eta, Some k)))"
    using tables_with_k by blast
qed

theorem csv_sections_witness:
  "\<not> contains ''wl,n\<newline>0.3,1.5\<newline>0.4,1.6\<newline>0.9,1.4\<newline>'' ''wl,k'' \<and>
   first_at ''wl,n\<newline>0.3,1.5\<newline>0.4,1.6\<newline>0.9,1.4\<newline>'' ''wl,n'' 0 \<and>
   tables ''wl,n\<newline>0.3,1.5\<newline>0.4,1.6\<newline>0.9,1.4\<newline>'' =
     Inr ([(Fin 300, Fin (3 / 2)), (Fin 400, round64 (8 / 5)), (Fin 900, round64 (7 / 5))], None) \<and>
   convert ''wl,n\<newline>0.3,1.5\<newline>0.4,1.6\<newline>0.9,1.4\<newline>'' =
     Inr (JObj [(''Eta'', texture (tolist
        [(Fin 300, Fin (3 / 2)), (Fin 400, round64 (8 / 5)), (Fin 900, round64 (7 / 5))]))]) \<and>
   has_key ''Eta''
     (JObj [(''Eta'', texture (tolist
        [(Fin 300, Fin (3 / 2)), (Fin 400, round64 (8 / 5)), (Fin 900, round64 (7 / 5))]))]) \<and>
   \<not> has_key ''K''
     (JObj [(''Eta'', texture (tolist
        [(Fin 300, Fin (3 / 2)), (Fin 400, round64 (8 / 5)), (Fin 900, round64 (7 / 5))]))]) \<and>
   first_at ''wl,n\<newline>0.5,1.5\<newline>wl,k\<newline>0.5,5.0\<newline>'' ''wl,k'' 13 \<and>
   first_at ''wl,n\<newline>0.5,1.5\<newline>wl,k\<newline>0.5,5.0\<newline>'' ''wl,n'' 0 \<and>
   tables ''wl,n\<newline>0.5,1.5\<newline>wl,k\<newline>0.5,5.0\<newline>'' =
     Inr ([(Fin 500, Fin (3 / 2))], Some [(Fin 500, Fin 5)])"
proof -
  have a1: "\<not> contains ''wl,n\<newline>0.3,1.5\<newline>0.4,1.6\<newline>0.9,1.4\<newline>'' ''wl,k''"
    by code_simp
  have a2: "first_at ''wl,n\<newline>0.3,1.5\<newline>0.4,1.6\<newline>0.9,1.4\<newline>'' ''wl,n'' 0"
    by code_simp
  have a3: "parse (drop (0 + 4) ''wl,n\<newline>0.3,1.5\<newline>0.4,1.6\<newline>0.9,1.4\<newline>'') =
     Inr [(Fin 300, Fin (3 / 2)), (Fin 400, round64 (8 / 5)), (Fin 900, round64 (7 / 5))]"
    by code_simp
  have a4: "convert ''wl,n\<newline>0.3,1.5\<newline>0.4,1.6\<newline>0.9,1.4\<newline>'' =
     Inr (JObj [(''Eta'', texture (tolist
        [(Fin 300, Fin (3 / 2)), (Fin 400, round64 (8 / 5)), (Fin 900, round64 (7 / 5))]))])"
    by code_simp
  note a = csv_sections [of "''wl,n\<newline>0.3,1.5\<newline>0.4,1.6\<newline>0.9,1.4\<newline>''" 0 0,
      THEN conjunct1, THEN mp, OF conjI [OF a1 a2]]
  have ta: "tables ''wl,n\<newline>0.3,1.5\<newline>0.4,1.6\<newline>0.9,1.4\<newline>'' =
     Inr ([(Fin 300, Fin (3 / 2)), (Fin 400, round64 (8 / 5)), (Fin 900, round64 (7 / 5))], None)"
    using a [THEN conjunct1] a3 by simp
  have ka: "has_key ''Eta''
     (JObj [(''Eta'', texture (tolist
        [(Fin 300, Fin (3 / 2)), (Fin 400, round64 (8 / 5)), (Fin 900, round64 (7 / 5))]))]) \<and>
   \<not> has_key ''K''
     (JObj [(''Eta'', texture (tolist
        [(Fin 300, Fin (3 / 2)), (Fin 400, round64 (8 / 5)), (Fin 900, round64 (7 / 5))]))])"
    using a [THEN conjunct2, rule_format, OF a4] .
  have b1: "first_at ''wl,n\<newline>0.5,1.5\<newline>wl,k\<newline>0.5,5.0\<newline>'' ''wl,k'' 13"
    by code_simp
  have b2: "first_at ''wl,n\<newline>0.5,1.5\<newline>wl,k\<newline>0.5,5.0\<newline>'' ''wl,n'' 0"
    by code_simp
  have b3: "parse (drop (0 + 4) (take 13 ''wl,n\<newline>0.5,1.5\<newline>wl,k\<newline>0.5,5.0\<newline>'')) =
     Inr [(Fin 500, Fin (3 / 2))]"
    by code_simp
  have b4: "parse (drop (13 + 4) ''wl,n\<newline>0.5,1.5\<newline>wl,k\<newline>0.5,5.0\<newline>'') =
     Inr [(Fin 500, Fin 5)]"
    by code_simp
  have tb: "tables ''wl,n\<newline>0.5,1.5\<newline>wl,k\<newline>0.5,5.0\<newline>'' =
     Inr ([(Fin 500, Fin (3 / 2))], Some [(Fin 500, Fin 5)])"
    using csv_sections [of "''wl,n\<newline>0.5,1.5\<newline>wl,k\<newline>0.5,5.0\<newline>''" 0 13,
        THEN conjunct2, THEN mp, OF conjI [OF b1 b2]] b3 b4
    by simp
  show ?thesis using a1 a2 ta a4 ka b1 b2 tb by blast
qed

lemma contains_first_at: "contains s sub \<longleftrightarrow> (\<exists>i. first_at s sub i)"
proof
  assume "contains s sub"
  then have "\<exists>i. occurs_at s sub i" by (auto simp: contains_def list_ex_iff)
  then obtain i where "occurs_at s sub i" "\<forall>k<i. \<not> occurs_at s sub k"
    using exists_least_iff [of "occurs_at s sub"] by blast
  then have "first_at s sub i" by (auto simp: first_at_def list_ex_iff)
  then show "\<exists>i. first_at s sub i" ..
next
  assume "\<exists>i. first_at s sub i"
  then obtain i where "occurs_at s sub i" by (auto simp: first_at_def)
  moreover from this have "i \<le> length s" by (simp add: occurs_at_def)
  ultimately show "contains s sub"
    by (auto simp: contains_def list_ex_iff less_Suc_eq_le simp del: upt_Suc)
qed

lemma convert_with_k:
  assumes "first_at data ''wl,k'' j" "convert data = Inr obj"
  shows "\<exists>eta k. parse (drop (j + 4) data) = Inr k \<and> k \<noteq> [] \<and>
                  obj = build_obj eta (if negligible k then None else Some k)"
proof -
  from assms(2) obtain eta k0 where t: "tables data = Inr (eta, k0)"
    and obj: "obj = build_obj eta (drop_negligible k0)"
    by (auto simp: convert_def split: sum.splits)
  from t obtain k where k: "parse (drop (j + 4) data) = Inr k" "k0 = Some k"
    unfolding k_section [OF assms(1)] by (auto split: sum.splits)
  from k(1) have "k \<noteq> []" by (rule parse_nonempty)
  with k obj show ?thesis by (auto simp: drop_negligible_def)
qed

lemma has_key_K:
  "k \<noteq> [] \<Longrightarrow> has_key ''K'' (build_obj eta (if negligible k then None else Some k)) = (\<not> negligible k)"
  by (simp add: build_obj_def)

text \<open>
  C4, as stated, fails: with the imaginary-index row \<^verbatim>\<open>0.5,-5.0\<close> the table has
  a row and its value is not below \<^verbatim>\<open>1e-3\<close> in magnitude, yet the object written
  has no key \<open>K\<close>.
\<close>

theorem k_omitted_despite_magnitude:
  "first_at ''wl,n\<newline>0.5,1.5\<newline>wl,k\<newline>0.5,-5.0\<newline>'' ''wl,k'' 13 \<and>
   parse (drop 17 ''wl,n\<newline>0.5,1.5\<newline>wl,k\<newline>0.5,-5.0\<newline>'') = Inr [(Fin 500, Fin (- 5))] \<and>
   \<not> spec_negligible [(Fin 500, Fin (- 5))] \<and>
   convert ''wl,n\<newline>0.5,1.5\<newline>wl,k\<newline>0.5,-5.0\<newline>'' =
     Inr (JObj [(''Eta'', texture (tolist [(Fin 500, Fin (3 / 2))]))]) \<and>
   \<not> has_key ''K'' (JObj [(''Eta'', texture (tolist [(Fin 500, Fin (3 / 2))]))])"
  by code_simp

text \<open>
  C4, amended: for a text whose first \<^verbatim>\<open>wl,k\<close> starts at \<open>j\<close>, an object that is
  written has the key \<open>K\<close> exactly when not every value of the parsed
  imaginary-index table is below \<^verbatim>\<open>1e-3\<close>, the values compared with their sign;
  and when that section has no parsed row nothing is written, since \<^verbatim>\<open>parse\<close>
  raises.
\<close>

theorem k_omitted_iff_signed_negligible:
  assumes "first_at data ''wl,k'' j"
  shows "(\<forall>obj. convert data = Inr obj \<longrightarrow>
            (\<exists>k. parse (drop (j + 4) data) = Inr k \<and> k \<noteq> [] \<and>
                 (has_key ''K'' obj \<longleftrightarrow> \<not> list_all (\<lambda>v. flt v (round64 (1 / 1000))) (map snd k)))) \<and>
         (parse_rows (splitlines (drop (j + 4) data)) [] = Inr [] \<longrightarrow> (\<exists>e. convert data = Inl e))"
proof (intro conjI allI impI)
  fix obj assume "convert data = Inr obj"
  from convert_with_k [OF assms this] obtain eta k
    where k: "parse (drop (j + 4) data) = Inr k" "k \<noteq> []"
      "obj = build_obj eta (if negligible k then None else Some k)" by blast
  have "has_key ''K'' obj \<longleftrightarrow> \<not> list_all (\<lambda>v. flt v (round64 (1 / 1000))) (map snd k)"
    unfolding k(3) has_key_K [OF k(2)] by (simp add: negligible_def)
  with k show "\<exists>k. parse (drop (j + 4) data) = Inr k \<and> k \<noteq> [] \<and>
                 (has_key ''K'' obj \<longleftrightarrow> \<not> list_all (\<lambda>v. flt v (round64 (1 / 1000))) (map snd k))"
    by blast
next
  assume "parse_rows (splitlines (drop (j + 4) data)) [] = Inr []"
  then have "parse (drop (j + 4) data) = Inl InvalidData"
    by (simp add: parse_def range_normalizer_Nil)
  then show "\<exists>e. convert data = Inl e"
    unfolding convert_def k_section [OF assms] by (auto split: sum.splits)
qed

theorem k_omitted_iff_signed_negligible_witness:
  "first_at ''wl,n\<newline>0.5,1.5\<newline>wl,k\<newline>0.5,5.0\<newline>'' ''wl,k'' 13 \<and>
   convert ''wl,n\<newline>0.5,1.5\<newline>wl,k\<newline>0.5,5.0\<newline>'' =
     Inr (JObj [(''Eta'', texture (tolist [(Fin 500, Fin (3 / 2))])),
                (''K'', texture (tolist [(Fin 500, Fin 5)]))]) \<and>
   has_key ''K'' (JObj [(''Eta'', texture (tolist [(Fin 500, Fin (3 / 2))])),
                        (''K'', texture (tolist [(Fin 500, Fin 5)]))])"
proof -
  have h1: "first_at ''wl,n\<newline>0.5,1.5\<newline>wl,k\<newline>0.5,5.0\<newline>'' ''wl,k'' 13"
    by code_simp
  have h2: "convert ''wl,n\<newline>0.5,1.5\<newline>wl,k\<newline>0.5,5.0\<newline>'' =
     Inr (JObj [(''Eta'', texture (tolist [(Fin 500, Fin (3 / 2))])),
                (''K'', texture (tolist [(Fin 500, Fin 5)]))])"
    by code_simp
  have h3: "parse (drop (13 + 4) ''wl,n\<newline>0.5,1.5\<newline>wl,k\<newline>0.5,5.0\<newline>'') = Inr [(Fin 500, Fin 5)]"
    by code_simp
  have h4: "\<not> list_all (\<lambda>v. flt v (round64 (1 / 1000))) (map snd [(Fin 500, Fin 5)])"
    by code_simp
  from k_omitted_iff_signed_negligible [OF h1, THEN conjunct1, rule_format, OF h2] h3 h4
  have "has_key ''K'' (JObj [(''Eta'', texture (tolist [(Fin 500, Fin (3 / 2))])),
                        (''K'', texture (tolist [(Fin 500, Fin 5)]))])"
    by auto
  with h1 h2 show ?thesis by blast
qed

text \<open>
  C10: the test compares the values with their sign. When every value of the
  parsed imaginary-index table is below \<^verbatim>\<open>1e-3\<close>, negative values of any
  magnitude included, the object written has no key \<open>K\<close>.
\<close>

theorem signed_negligible_k_omitted:
  assumes "first_at data ''wl,k'' j"
    and "parse (drop (j + 4) data) = Inr k"
    and "list_all (\<lambda>v. flt v (round64 (1 / 1000))) (map snd k)"
    and "convert data = Inr obj"
  shows "\<not> has_key ''K'' obj"
proof -
  from convert_with_k [OF assms(1,4)] assms(2) obtain eta
    where "k \<noteq> []" "obj = build_obj eta (if negligible k then None else Some k)" by auto
  then show ?thesis using assms(3) by (simp add: build_obj_def negligible_def)
qed

theorem signed_negligible_k_omitted_witness:
  "first_at ''wl,n\<newline>0.5,1.5\<newline>wl,k\<newline>0.5,-5.0\<newline>'' ''wl,k'' 13 \<and>
   parse (drop (13 + 4) ''wl,n\<newline>0.5,1.5\<newline>wl,k\<newline>0.5,-5.0\<newline>'') = Inr [(Fin 500, Fin (- 5))] \<and>
   list_all (\<lambda>v. flt v (round64 (1 / 1000))) (map snd [(Fin 500, Fin (- 5))]) \<and>
   convert ''wl,n\<newline>0.5,1.5\<newline>wl,k\<newline>0.5,-5.0\<newline>'' =
     Inr (JObj [(''Eta'', texture (tolist [(Fin 500, Fin (3 / 2))]))]) \<and>
   \<not> has_key ''K'' (JObj [(''Eta'', texture (tolist [(Fin 500, Fin (3 / 2))]))])"
proof -
  have h1: "first_at ''wl,n\<newline>0.5,1.5\<newline>wl,k\<newline>0.5,-5.0\<newline>'' ''wl,k'' 13"
    by code_simp
  have h2: "parse (drop (13 + 4) ''wl,n\<newline>0.5,1.5\<newline>wl,k\<newline>0.5,-5.0\<newline>'') = Inr [(Fin 500, Fin (- 5))]"
    by code_simp
  have h3: "list_all (\<lambda>v. flt v (round64 (1 / 1000))) (map snd [(Fin 500, Fin (- 5))])"
    by code_simp
  have h4: "convert ''wl,n\<newline>0.5,1.5\<newline>wl,k\<newline>0.5,-5.0\<newline>'' =
     Inr (JObj [(''Eta'', texture (tolist [(Fin 500, Fin (3 / 2))]))])"
    by code_simp
  show ?thesis using h1 h2 h3 h4 signed_negligible_k_omitted [OF h1 h2 h3 h4] by blast
qed

section \<open>The tables written by the CSV tool\<close>

lemma parse_table_in_band:
  assumes "rows_sorted sec" and "parse sec = Inr t"
  shows "t \<noteq> [] \<and> (\<forall>i. 0 < i \<and> i + 1 < length t \<longrightarrow> in_band (fst (t ! i)))"
proof -
  from assms(2) obtain res where r: "parse_rows (splitlines sec) [] = Inr res"
    and t: "t = range_normalizer res" "t \<noteq> []"
    by (auto simp: parse_def Let_def split: sum.splits if_splits)
  from assms(1) r have "sorted_wrt fle (map fst res)" by (simp add: rows_sorted_def)
  then have "\<forall>i. 0 < i \<and> i + 1 < length t \<longrightarrow> in_band (fst (t ! i))"
    using interior_in_band t(1) by blast
  with t(2) show ?thesis by blast
qed

lemma emitted_array_Eta:
  "emitted_array ''Eta'' (build_obj eta k) = Some (map (\<lambda>(w, v). JList [JNum w, JNum v]) eta)"
  by (simp add: emitted_array_def build_obj_def texture_def tolist_def)

lemma emitted_array_K:
  "t \<noteq> [] \<Longrightarrow>
   emitted_array ''K'' (build_obj eta (Some t)) = Some (map (\<lambda>(w, v). JList [JNum w, JNum v]) t)"
  by (simp add: emitted_array_def build_obj_def texture_def tolist_def)

lemma no_K: "\<not> has_key ''K'' (build_obj eta None)"
  by (simp add: build_obj_def)

lemma wavelength_of_pair: "wavelength_of ((\<lambda>(w, v). JList [JNum w, JNum v]) s) = Some (fst s)"
  by (cases s) (simp add: wavelength_of_def)

lemma band_invariant_rows:
  assumes "t \<noteq> []" and "\<forall>i. 0 < i \<and> i + 1 < length t \<longrightarrow> in_band (fst (t ! i))"
  shows "band_invariant (map (\<lambda>(w, v). JList [JNum w, JNum v]) t)"
proof -
  let ?arr = "map (\<lambda>(w, v). JList [JNum w, JNum v]) t"
  have len: "1 \<le> length ?arr" using assms(1) by (cases t) auto
  have "\<And>i. i < length (butlast (tl ?arr)) \<Longrightarrow>
          (case wavelength_of (butlast (tl ?arr) ! i) of None \<Rightarrow> False | Some w \<Rightarrow> in_band w)"
  proof -
    fix i assume i: "i < length (butlast (tl ?arr))"
    then have b: "Suc (Suc i) < length t" by simp
    have "butlast (tl ?arr) ! i = ?arr ! (Suc i)"
      using i by (simp add: nth_butlast nth_tl)
    also have "\<dots> = (\<lambda>(w, v). JList [JNum w, JNum v]) (t ! Suc i)"
      using b by simp
    finally have "wavelength_of (butlast (tl ?arr) ! i) = Some (fst (t ! Suc i))"
      by (simp only: wavelength_of_pair)
    moreover have "in_band (fst (t ! Suc i))" using assms(2) [rule_format, of "Suc i"] b by simp
    ultimately show "case wavelength_of (butlast (tl ?arr) ! i) of None \<Rightarrow> False | Some w \<Rightarrow> in_band w"
      by simp
  qed
  then have "list_all (\<lambda>x. case wavelength_of x of None \<Rightarrow> False | Some w \<Rightarrow> in_band w)
               (butlast (tl ?arr))"
    by (simp only: list_all_length) blast
  with len show ?thesis by (simp only: band_invariant_def)
qed

lemma convert_emits_parse_results:
  assumes "convert data = Inr obj"
  shows "\<exists>eta k. obj = build_obj eta k \<and>
           parse (hd (sections data)) = Inr eta \<and>
           emitted_array ''Eta'' obj = Some (map (\<lambda>(w, v). JList [JNum w, JNum v]) eta) \<and>
           (case k of
              None \<Rightarrow> \<not> has_key ''K'' obj
            | Some t \<Rightarrow> length (sections data) = 2 \<and> parse (sections data ! 1) = Inr t \<and>
                has_key ''K'' obj \<and>
                emitted_array ''K'' obj = Some (map (\<lambda>(w, v). JList [JNum w, JNum v]) t))"
proof -
  from assms obtain eta k0 where t: "tables data = Inr (eta, k0)"
    and obj: "obj = build_obj eta (drop_negligible k0)"
    by (auto simp: convert_def split: sum.splits)
  have eta: "parse (hd (sections data)) = Inr eta"
    using t by (auto simp: tables_def sections_def split: if_splits sum.splits)
  have k: "case drop_negligible k0 of
              None \<Rightarrow> True
            | Some t \<Rightarrow> length (sections data) = 2 \<and> parse (sections data ! 1) = Inr t \<and> t \<noteq> []"
    using t
    by (auto simp: tables_def sections_def drop_negligible_def
             split: if_splits sum.splits option.splits dest: parse_nonempty)
  show ?thesis
  proof (cases "drop_negligible k0")
    case None
    with obj eta show ?thesis
      by (intro exI [of _ eta] exI [of _ None]) (simp add: emitted_array_Eta no_K)
  next
    case (Some t)
    with k have kt: "length (sections data) = 2" "parse (sections data ! 1) = Inr t" "t \<noteq> []"
      by simp_all
    have "has_key ''K'' (build_obj eta (Some t))" using kt(3) by (simp add: build_obj_def)
    with obj eta Some kt show ?thesis
      by (intro exI [of _ eta] exI [of _ "Some t"]) (simp add: emitted_array_Eta emitted_array_K)
  qed
qed

lemma run_csv_written:
  "run_csv e ms w = (r, w') \<Longrightarrow>
   \<exists>new. written w' = written w @ new \<and>
         list_all (\<lambda>(p, obj). \<exists>src data. read_text e src = Inr data \<and> convert data = Inr obj) new"
proof (induction ms arbitrary: w)
  case Nil
  then show ?case by auto
next
  case (Cons m ms)
  obtain name src where m: "m = (name, src)" by (cases m)
  let ?w2 = "(print (''Generating '' @ name) w)\<lparr>opened := opened (print (''Generating '' @ name) w) @ [src]\<rparr>"
  have w2: "written ?w2 = written w" by (simp add: print_def)
  show ?case
  proof (cases "read_text e src")
    case (Inl err)
    with Cons.prems m have "w' = ?w2" by (simp add: Let_def)
    with w2 show ?thesis by auto
  next
    case (Inr data)
    note rd = this
    show ?thesis
    proof (cases "convert data")
      case (Inl err)
      with Cons.prems m rd have "w' = ?w2" by (simp add: Let_def)
      with w2 show ?thesis by auto
    next
      case (Inr obj)
      show ?thesis
      proof (cases "writable e (''ior/'' @ name @ ''.json'')")
        case False
        with Cons.prems m rd Inr have "w' = ?w2" by (simp add: Let_def)
        with w2 show ?thesis by auto
      next
        case True
        let ?w3 = "?w2\<lparr>written := written ?w2 @ [(''ior/'' @ name @ ''.json'', obj)]\<rparr>"
        from Cons.prems m rd Inr True have "run_csv e ms ?w3 = (r, w')" by (simp add: Let_def)
        from Cons.IH [OF this] obtain new where
          new: "written w' = written ?w3 @ new"
            "list_all (\<lambda>(p, obj). \<exists>src data. read_text e src = Inr data \<and> convert data = Inr obj) new"
          by blast
        have "written w' = written w @ ((''ior/'' @ name @ ''.json'', obj) # new)"
          using new(1) w2 by simp
        moreover have "list_all (\<lambda>(p, obj). \<exists>src data. read_text e src = Inr data \<and> convert data = Inr obj)
                         ((''ior/'' @ name @ ''.json'', obj) # new)"
          using new(2) rd Inr by auto
        ultimately show ?thesis by blast
      qed
    qed
  qed
qed

text \<open>
  C1: for a CSV text whose sections parse to rows in ascending order of
  wavelength, each table of the object written for it, \<open>Eta\<close> and, when it is
  there, \<open>K\<close>, has at least one sample, and every sample other than the first
  and the last has its wavelength within 360 to 830 nm. The objects that the
  tool writes are the conversions of the files it reads, and no others.
\<close>

theorem emitted_tables_in_band:
  "(convert data = Inr obj \<and> list_all rows_sorted (sections data) \<longrightarrow>
      table_ok ''Eta'' obj \<and> (has_key ''K'' obj \<longrightarrow> table_ok ''K'' obj)) \<and>
   (main_csv e argv w = (r, w') \<longrightarrow>
      (\<exists>new. written w' = written w @ new \<and>
         list_all (\<lambda>(p, obj). \<exists>src data. read_text e src = Inr data \<and> convert data = Inr obj)
                  new))"
proof (intro conjI impI)
  assume a: "convert data = Inr obj \<and> list_all rows_sorted (sections data)"
  then obtain eta k where ek: "obj = build_obj eta k"
    "parse (hd (sections data)) = Inr eta"
    "emitted_array ''Eta'' obj = Some (map (\<lambda>(w, v). JList [JNum w, JNum v]) eta)"
    "case k of
       None \<Rightarrow> \<not> has_key ''K'' obj
     | Some t \<Rightarrow> length (sections data) = 2 \<and> parse (sections data ! 1) = Inr t \<and>
         has_key ''K'' obj \<and>
         emitted_array ''K'' obj = Some (map (\<lambda>(w, v). JList [JNum w, JNum v]) t)"
    using convert_emits_parse_results by blast
  have ne: "sections data \<noteq> []" by (simp add: sections_def)
  from a have s0: "rows_sorted (hd (sections data))"
    using ne by (cases "sections data") auto
  from parse_table_in_band [OF s0 ek(2)] have "band_invariant (map (\<lambda>(w, v). JList [JNum w, JNum v]) eta)"
    using band_invariant_rows by blast
  then show "table_ok ''Eta'' obj" by (simp add: table_ok_def ek(3))
  show "table_ok ''K'' obj" if hk: "has_key ''K'' obj"
  proof (cases k)
    case None
    with ek(4) hk show ?thesis by simp
  next
    case (Some t)
    with ek(4) have kt: "length (sections data) = 2" "parse (sections data ! 1) = Inr t"
      "emitted_array ''K'' obj = Some (map (\<lambda>(w, v). JList [JNum w, JNum v]) t)"
      by simp_all
    from a kt(1) have "rows_sorted (sections data ! 1)" by (simp add: list_all_length)
    from parse_table_in_band [OF this kt(2)]
    have "band_invariant (map (\<lambda>(w, v). JList [JNum w, JNum v]) t)"
      using band_invariant_rows by blast
    then show ?thesis by (simp add: table_ok_def kt(3))
  qed
next
  assume m: "main_csv e argv w = (r, w')"
  show "\<exists>new. written w' = written w @ new \<and>
         list_all (\<lambda>(p, obj). \<exists>src data. read_text e src = Inr data \<and> convert data = Inr obj) new"
  proof (cases "length argv \<noteq> 2")
    case True
    with m have "written w' = written w @ []" by (auto simp: main_csv_def print_def)
    then show ?thesis by (intro exI [of _ "[]"]) simp
  next
    case False
    with m have "run_csv e (csv_materials (walk e (argv ! 1))) (w\<lparr>walked := walked w @ [argv ! 1]\<rparr>) = (r, w')"
      by (simp add: main_csv_def Let_def)
    from run_csv_written [OF this] show ?thesis by simp
  qed
qed

theorem emitted_tables_in_band_witness:
  "convert ''wl,n\<newline>0.3,1\<newline>0.35,1\<newline>0.4,1\<newline>0.5,1\<newline>0.9,1\<newline>0.95,1\<newline>wl,k\<newline>0.3,2\<newline>0.4,2\<newline>0.5,2\<newline>0.9,2\<newline>'' =
     Inr (JObj [(''Eta'', texture (tolist [(Fin 350, Fin 1), (Fin 400, Fin 1), (Fin 500, Fin 1),
                                        (Fin 900, Fin 1)])),
             (''K'', texture (tolist [(Fin 300, Fin 2), (Fin 400, Fin 2), (Fin 500, Fin 2),
                                      (Fin 900, Fin 2)]))]) \<and>
   list_all rows_sorted (sections ''wl,n\<newline>0.3,1\<newline>0.35,1\<newline>0.4,1\<newline>0.5,1\<newline>0.9,1\<newline>0.95,1\<newline>wl,k\<newline>0.3,2\<newline>0.4,2\<newline>0.5,2\<newline>0.9,2\<newline>'') \<and>
   table_ok ''Eta''
     (JObj [(''Eta'', texture (tolist [(Fin 350, Fin 1), (Fin 400, Fin 1), (Fin 500, Fin 1),
                                        (Fin 900, Fin 1)])),
             (''K'', texture (tolist [(Fin 300, Fin 2), (Fin 400, Fin 2), (Fin 500, Fin 2),
                                      (Fin 900, Fin 2)]))]) \<and>
   has_key ''K''
     (JObj [(''Eta'', texture (tolist [(Fin 350, Fin 1), (Fin 400, Fin 1), (Fin 500, Fin 1),
                                        (Fin 900, Fin 1)])),
             (''K'', texture (tolist [(Fin 300, Fin 2), (Fin 400, Fin 2), (Fin 500, Fin 2),
                                      (Fin 900, Fin 2)]))]) \<and>
   table_ok ''K''
     (JObj [(''Eta'', texture (tolist [(Fin 350, Fin 1), (Fin 400, Fin 1), (Fin 500, Fin 1),
                                        (Fin 900, Fin 1)])),
             (''K'', texture (tolist [(Fin 300, Fin 2), (Fin 400, Fin 2), (Fin 500, Fin 2),
                                      (Fin 900, Fin 2)]))]) \<and>
   main_csv
     \<lparr>walk = (\<lambda>p. [(p, [''gold.csv''])]),
      read_text = (\<lambda>p. Inr ''wl,n\<newline>0.3,1\<newline>0.35,1\<newline>0.4,1\<newline>0.5,1\<newline>0.9,1\<newline>0.95,1\<newline>wl,k\<newline>0.3,2\<newline>0.4,2\<newline>0.5,2\<newline>0.9,2\<newline>''),
      writable = (\<lambda>p. True)\<rparr>
     [''RefractiveIndextoPiper0.py'', ''data'']
     \<lparr>stdout = [], walked = [], opened = [], written = []\<rparr> =
   (Finished,
     \<lparr>stdout = [''Generating gold''], walked = [''data''], opened = [''data/gold.csv''],
      written = [(''ior/gold.json'',
        (JObj [(''Eta'', texture (tolist [(Fin 350, Fin 1), (Fin 400, Fin 1), (Fin 500, Fin 1),
                                        (Fin 900, Fin 1)])),
             (''K'', texture (tolist [(Fin 300, Fin 2), (Fin 400, Fin 2), (Fin 500, Fin 2),
                                      (Fin 900, Fin 2)]))]))]\<rparr>) \<and>
   (\<exists>new. written
      \<lparr>stdout = [''Generating gold''], walked = [''data''], opened = [''data/gold.csv''],
      written = [(''ior/gold.json'',
        (JObj [(''Eta'', texture (tolist [(Fin 350, Fin 1), (Fin 400, Fin 1), (Fin 500, Fin 1),
                                        (Fin 900, Fin 1)])),
             (''K'', texture (tolist [(Fin 300, Fin 2), (Fin 400, Fin 2), (Fin 500, Fin 2),
                                      (Fin 900, Fin 2)]))]))]\<rparr> =
      written \<lparr>stdout = [], walked = [], opened = [], written = []\<rparr> @ new \<and>
      list_all (\<lambda>(p, obj). \<exists>src data.
          read_text
            \<lparr>walk = (\<lambda>p. [(p, [''gold.csv''])]),
      read_text = (\<lambda>p. Inr ''wl,n\<newline>0.3,1\<newline>0.35,1\<newline>0.4,1\<newline>0.5,1\<newline>0.9,1\<newline>0.95,1\<newline>wl,k\<newline>0.3,2\<newline>0.4,2\<newline>0.5,2\<newline>0.9,2\<newline>''),
      writable = (\<lambda>p. True)\<rparr> src = Inr data \<and>
          convert data = Inr obj) new)"
proof -
  have h1: "convert ''wl,n\<newline>0.3,1\<newline>0.35,1\<newline>0.4,1\<newline>0.5,1\<newline>0.9,1\<newline>0.95,1\<newline>wl,k\<newline>0.3,2\<newline>0.4,2\<newline>0.5,2\<newline>0.9,2\<newline>'' =
     Inr (JObj [(''Eta'', texture (tolist [(Fin 350, Fin 1), (Fin 400, Fin 1), (Fin 500, Fin 1),
                                        (Fin 900, Fin 1)])),
             (''K'', texture (tolist [(Fin 300, Fin 2), (Fin 400, Fin 2), (Fin 500, Fin 2),
                                      (Fin 900, Fin 2)]))])"
    by code_simp
  have h2: "list_all rows_sorted (sections ''wl,n\<newline>0.3,1\<newline>0.35,1\<newline>0.4,1\<newline>0.5,1\<newline>0.9,1\<newline>0.95,1\<newline>wl,k\<newline>0.3,2\<newline>0.4,2\<newline>0.5,2\<newline>0.9,2\<newline>'')"
    by code_simp
  have h3: "has_key ''K''
     (JObj [(''Eta'', texture (tolist [(Fin 350, Fin 1), (Fin 400, Fin 1), (Fin 500, Fin 1),
                                        (Fin 900, Fin 1)])),
             (''K'', texture (tolist [(Fin 300, Fin 2), (Fin 400, Fin 2), (Fin 500, Fin 2),
                                      (Fin 900, Fin 2)]))])"
    by simp
  have h4: "main_csv
     \<lparr>walk = (\<lambda>p. [(p, [''gold.csv''])]),
      read_text = (\<lambda>p. Inr ''wl,n\<newline>0.3,1\<newline>0.35,1\<newline>0.4,1\<newline>0.5,1\<newline>0.9,1\<newline>0.95,1\<newline>wl,k\<newline>0.3,2\<newline>0.4,2\<newline>0.5,2\<newline>0.9,2\<newline>''),
      writable = (\<lambda>p. True)\<rparr>
     [''RefractiveIndextoPiper0.py'', ''data'']
     \<lparr>stdout = [], walked = [], opened = [], written = []\<rparr> =
   (Finished,
     \<lparr>stdout = [''Generating gold''], walked = [''data''], opened = [''data/gold.csv''],
      written = [(''ior/gold.json'',
        (JObj [(''Eta'', texture (tolist [(Fin 350, Fin 1), (Fin 400, Fin 1), (Fin 500, Fin 1),
                                        (Fin 900, Fin 1)])),
             (''K'', texture (tolist [(Fin 300, Fin 2), (Fin 400, Fin 2), (Fin 500, Fin 2),
                                      (Fin 900, Fin 2)]))]))]\<rparr>)"
    by code_simp
  note t = emitted_tables_in_band
    [where data = "''wl,n\<newline>0.3,1\<newline>0.35,1\<newline>0.4,1\<newline>0.5,1\<newline>0.9,1\<newline>0.95,1\<newline>wl,k\<newline>0.3,2\<newline>0.4,2\<newline>0.5,2\<newline>0.9,2\<newline>''"
       and obj = "(JObj [(''Eta'', texture (tolist [(Fin 350, Fin 1), (Fin 400, Fin 1), (Fin 500, Fin 1),
                                        (Fin 900, Fin 1)])),
             (''K'', texture (tolist [(Fin 300, Fin 2), (Fin 400, Fin 2), (Fin 500, Fin 2),
                                      (Fin 900, Fin 2)]))])"
       and e = "\<lparr>walk = (\<lambda>p. [(p, [''gold.csv''])]),
      read_text = (\<lambda>p. Inr ''wl,n\<newline>0.3,1\<newline>0.35,1\<newline>0.4,1\<newline>0.5,1\<newline>0.9,1\<newline>0.95,1\<newline>wl,k\<newline>0.3,2\<newline>0.4,2\<newline>0.5,2\<newline>0.9,2\<newline>''),
      writable = (\<lambda>p. True)\<rparr>"
       and argv = "[''RefractiveIndextoPiper0.py'', ''data'']"
       and w = "\<lparr>stdout = [], walked = [], opened = [], written = []\<rparr>"
       and r = Finished
       and w' = "\<lparr>stdout = [''Generating gold''], walked = [''data''], opened = [''data/gold.csv''],
      written = [(''ior/gold.json'',
        (JObj [(''Eta'', texture (tolist [(Fin 350, Fin 1), (Fin 400, Fin 1), (Fin 500, Fin 1),
                                        (Fin 900, Fin 1)])),
             (''K'', texture (tolist [(Fin 300, Fin 2), (Fin 400, Fin 2), (Fin 500, Fin 2),
                                      (Fin 900, Fin 2)]))]))]\<rparr>"]
  note a = t [THEN conjunct1, THEN mp, OF conjI [OF h1 h2]]
  note b = t [THEN conjunct2, THEN mp, OF h4]
  show ?thesis using h1 h2 h3 h4 a b by blast
qed

section \<open>Properties of the command-line tools\<close>

text \<open>
  C8: when \<^verbatim>\<open>sys.argv\<close> does not hold exactly one argument after the name of
  the script, each of the two tools prints its usage line and exits with code
  \<open>-1\<close>; no directory is walked, no file is opened and nothing is written.
\<close>

theorem wrong_argc_exits:
  assumes "length argv \<noteq> 2"
  shows "main_csv e argv w = (Exit (- 1), w\<lparr>stdout := stdout w @ [''Please input the path to data files'']\<rparr>) \<and>
         main_mitsuba e argv w =
           (Exit (- 1), w\<lparr>stdout := stdout w @ [''Please input the root path to mitsuba2's source'']\<rparr>) \<and>
         walked (snd (main_csv e argv w)) = walked w \<and>
         opened (snd (main_csv e argv w)) = opened w \<and>
         written (snd (main_csv e argv w)) = written w \<and>
         walked (snd (main_mitsuba e argv w)) = walked w \<and>
         opened (snd (main_mitsuba e argv w)) = opened w \<and>
         written (snd (main_mitsuba e argv w)) = written w"
  using assms by (simp add: main_csv_def main_mitsuba_def print_def)

theorem wrong_argc_exits_witness:
  "length [''RefractiveIndextoPiper0.py''] \<noteq> 2 \<and>
   main_csv \<lparr>walk = (\<lambda>p. []), read_text = (\<lambda>p. Inl OSError), writable = (\<lambda>p. True)\<rparr>
     [''RefractiveIndextoPiper0.py'']
     \<lparr>stdout = [], walked = [], opened = [], written = []\<rparr> =
   (Exit (- 1),
    \<lparr>stdout = [''Please input the path to data files''], walked = [], opened = [],
     written = []\<rparr>)"
proof -
  have h: "length [''RefractiveIndextoPiper0.py''] \<noteq> 2" by simp
  show ?thesis
    using h wrong_argc_exits [OF h, of "\<lparr>walk = (\<lambda>p. []), read_text = (\<lambda>p. Inl OSError), writable = (\<lambda>p. True)\<rparr>"
        "\<lparr>stdout = [], walked = [], opened = [], written = []\<rparr>"]
    by simp
qed

text \<open>
  C3 does not hold of the program: for \<^verbatim>\<open>copper.eta.spd\<close> with the single row
  \<^verbatim>\<open>400 1.1\<close> and \<^verbatim>\<open>copper.k.spd\<close> with the single row \<^verbatim>\<open>400 2.3\<close>, the arrays
  that \<^verbatim>\<open>np.loadtxt\<close> returns have one axis, and the lists written are the flat
  \<^verbatim>\<open>[400.0, 1.1]\<close> and \<^verbatim>\<open>[400.0, 2.3]\<close>, not lists of pairs.
\<close>

theorem mitsuba_single_row_is_flat:
  "main_mitsuba
     \<lparr>walk = (\<lambda>p. if p = ''m/resources/data/ior''
                     then [(p, [''copper.eta.spd'', ''copper.k.spd''])] else []),
       read_text = (\<lambda>p. if p = ''m/resources/data/ior/copper.eta.spd'' then Inr ''400 1.1\<newline>''
                          else if p = ''m/resources/data/ior/copper.k.spd'' then Inr ''400 2.3\<newline>''
                          else Inl OSError),
       writable = (\<lambda>p. True)\<rparr>
     [''mitsuba2toPiper0.py'', ''m'']
     \<lparr>stdout = [], walked = [], opened = [], written = []\<rparr> =
     (Finished,
      \<lparr>stdout = [''Generating copper''],
       walked = [''m/resources/data/ior''],
       opened = [''m/resources/data/ior/copper.eta.spd'', ''m/resources/data/ior/copper.k.spd''],
       written =
         [(''ior/copper.json'',
           JObj [(''Eta'', JObj [(''Type'', JStr ''SampledSpectrumTexture''),
                                (''Array'', JList [JNum (Fin 400), JNum (round64 (11 / 10))])]),
                 (''K'', JObj [(''Type'', JStr ''SampledSpectrumTexture''),
                              (''Array'', JList [JNum (Fin 400), JNum (round64 (23 / 10))])])])]\<rparr>)"
  by code_simp

end
